theory Spec2Isabelle
  imports Main "HOL-Library.AList"
begin

section \<open>Python values, exceptions and the HTTP exchange\<close>

text \<open>
  The values that \<^verbatim>\<open>r.json()\<close> returns and that the query parameters hold:
  \<^verbatim>\<open>None\<close>, booleans, integers, strings, lists and dicts. A dict is an association
  list in insertion order; a key is looked up at its first binding. JSON numbers with
  a fraction are left out: the program never computes with a number, it only hands
  \<^verbatim>\<open>created_utc\<close> to \<^verbatim>\<open>datetime.fromtimestamp\<close>.
\<close>

datatype pyval =
    PNone
  | PBool bool
  | PInt int
  | PStr string
  | PList "pyval list"
  | PDict "(string \<times> pyval) list"

text \<open>The built-in exceptions the modelled code can raise.\<close>

datatype error =
    KeyError string
  | TypeError
  | ValueError
  | JSONDecodeError
  | NotTabular

text \<open>Python's truth value of an object, as \<^verbatim>\<open>while after:\<close> tests it.\<close>

fun truthy :: "pyval \<Rightarrow> bool" where
  "truthy PNone = False"
| "truthy (PBool b) = b"
| "truthy (PInt n) = (n \<noteq> 0)"
| "truthy (PStr s) = (s \<noteq> [])"
| "truthy (PList xs) = (xs \<noteq> [])"
| "truthy (PDict kvs) = (kvs \<noteq> [])"

text \<open>
  \<^verbatim>\<open>obj[key]\<close> with a string key: a dict raises KeyError on a missing key, every
  other value raises TypeError (a list or a string wants an integer index, the
  others are not subscriptable).
\<close>

fun getitem :: "pyval \<Rightarrow> string \<Rightarrow> error + pyval" where
  "getitem (PDict kvs) k =
     (case map_of kvs k of None \<Rightarrow> Inl (KeyError k) | Some v \<Rightarrow> Inr v)"
| "getitem _ k = Inl TypeError"

text \<open>
  \<^verbatim>\<open>for item in obj\<close>: a list yields its elements, a dict its keys, a string its
  characters; anything else is not iterable.
\<close>

fun py_iter :: "pyval \<Rightarrow> error + pyval list" where
  "py_iter (PList xs) = Inr xs"
| "py_iter (PDict kvs) = Inr (map (\<lambda>kv. PStr (fst kv)) kvs)"
| "py_iter (PStr s) = Inr (map (\<lambda>c. PStr [c]) s)"
| "py_iter _ = Inl TypeError"

type_synonym params = "(string \<times> pyval) list"

record request =
  req_url :: string
  req_headers :: "(string \<times> string) list"
  req_params :: params

text \<open>
  A response of \<^verbatim>\<open>requests.get\<close>: the status code, the body as \<^verbatim>\<open>r.json()\<close>
  parses it (\<open>None\<close> when the body is not JSON, where \<^verbatim>\<open>r.json()\<close> raises), and the
  headers under their lower-case names. Connection failures are not modelled: every
  request gets a response.
\<close>

record response =
  status_code :: nat
  json_body :: "pyval option"
  resp_headers :: "(string \<times> string) list"

definition json :: "response \<Rightarrow> error + pyval" where
  "json r = (case json_body r of None \<Rightarrow> Inl JSONDecodeError | Some j \<Rightarrow> Inr j)"

definition header :: "response \<Rightarrow> string \<Rightarrow> error + string" where
  "header r k = (case map_of (resp_headers r) k of None \<Rightarrow> Inl (KeyError k) | Some v \<Rightarrow> Inr v)"

text \<open>
  What the program runs against: the platform's \<^verbatim>\<open>datetime.fromtimestamp\<close> (the
  local-time conversion, which depends on the machine's time zone and may raise) and
  the remote server, which answers the \<open>n\<close>-th request of the run (counted from 0)
  from its position and its content.
\<close>

record 'ts platform =
  fromtimestamp :: "pyval \<Rightarrow> error + 'ts"
  server :: "nat \<Rightarrow> request \<Rightarrow> response"

section \<open>The pandas operations the program uses\<close>

text \<open>
  A cell of a DataFrame: a value taken from a payload, the missing value NaN, or a
  \<^verbatim>\<open>datetime\<close>. The storage type pandas infers for a column is not modelled: an integer
  of a column with gaps, which pandas keeps as the equal float, is written as the
  integer, and a missing value is written NaN also where pandas keeps it as
  \<^verbatim>\<open>None\<close>.
\<close>

datatype 'ts cell = Cell pyval | NaN | Stamp 'ts

record 'ts dataframe =
  columns :: "string list"
  index :: "nat list"
  rows :: "'ts cell list list"

text \<open>The labels of a list in the order of their first appearance.\<close>

fun unique :: "'a list \<Rightarrow> 'a list" where
  "unique [] = []"
| "unique (x # xs) = x # unique (filter (\<lambda>y. y \<noteq> x) xs)"

definition cell_at :: "string list \<Rightarrow> 'ts cell list \<Rightarrow> string \<Rightarrow> 'ts cell" where
  "cell_at cols row c = (case map_of (zip cols row) c of None \<Rightarrow> NaN | Some x \<Rightarrow> x)"

fun dict_of :: "pyval \<Rightarrow> (string \<times> pyval) list option" where
  "dict_of (PDict kvs) = Some kvs"
| "dict_of _ = None"

text \<open>
  What the frame holds for a key of a dict: the value, or the missing value where the
  dict lacks the key and where it has \<^verbatim>\<open>None\<close> under it. In a column of numbers, and
  from pandas 3 on in a column of strings, a \<^verbatim>\<open>None\<close> is stored as NaN, so that the
  frame cannot tell it from an absent key; in the other columns pandas keeps the
  \<^verbatim>\<open>None\<close>, which is a missing value to it all the same.
\<close>

fun stored :: "pyval option \<Rightarrow> 'ts cell" where
  "stored None = NaN"
| "stored (Some PNone) = NaN"
| "stored (Some v) = Cell v"

definition record_row :: "string list \<Rightarrow> (string \<times> pyval) list \<Rightarrow> 'ts cell list" where
  "record_row cols d = map (\<lambda>c. stored (map_of d c)) cols"

text \<open>
  \<^verbatim>\<open>pd.DataFrame(data)\<close> for a list of dicts: the columns are the keys in the order
  of their first appearance, one row per dict, NaN where a dict lacks the key or has
  \<^verbatim>\<open>None\<close> under it, and the index is \<open>0, 1, ...\<close>. An empty list gives the frame with
  no column and no row. For a list whose elements are not all dicts pandas either
  raises or builds a frame whose column labels are integers, on which
  \<^verbatim>\<open>df["created_utc"]\<close> raises: the model reports \<open>NotTabular\<close> for both.
\<close>

definition DataFrame :: "pyval list \<Rightarrow> error + 'ts dataframe" where
  "DataFrame data =
     (case those (map dict_of data) of
        None \<Rightarrow> Inl NotTabular
      | Some ds \<Rightarrow>
          (let cols = unique (concat (map (map fst) ds))
           in Inr \<lparr>columns = cols, index = [0..<length ds],
                   rows = map (record_row cols) ds\<rparr>))"

text \<open>\<^verbatim>\<open>df[c]\<close>: the cells of column \<open>c\<close>, KeyError when there is no such column.\<close>

definition column :: "'ts dataframe \<Rightarrow> string \<Rightarrow> error + 'ts cell list" where
  "column df c =
     (if c \<in> set (columns df) then Inr (map (\<lambda>r. cell_at (columns df) r c) (rows df))
      else Inl (KeyError c))"

text \<open>
  \<^verbatim>\<open>series.apply(lambda x: dt.datetime.fromtimestamp(x))\<close>: the cells are converted in
  order and the first failure is raised. A NaN is a float that \<^verbatim>\<open>fromtimestamp\<close>
  rejects with ValueError; a \<^verbatim>\<open>datetime\<close> is not a number.
\<close>

fun apply_fromtimestamp :: "(pyval \<Rightarrow> error + 'ts) \<Rightarrow> 'ts cell list \<Rightarrow> error + 'ts list" where
  "apply_fromtimestamp f [] = Inr []"
| "apply_fromtimestamp f (x # xs) =
     (case (case x of Cell v \<Rightarrow> f v | NaN \<Rightarrow> Inl ValueError | Stamp t \<Rightarrow> Inl TypeError) of
        Inl e \<Rightarrow> Inl e
      | Inr t \<Rightarrow>
          (case apply_fromtimestamp f xs of Inl e \<Rightarrow> Inl e | Inr ts \<Rightarrow> Inr (t # ts)))"

text \<open>
  \<^verbatim>\<open>df[c] = values\<close>: an existing column is overwritten where it stands, a new one
  is added last.
\<close>

definition set_column :: "'ts dataframe \<Rightarrow> string \<Rightarrow> 'ts cell list \<Rightarrow> 'ts dataframe" where
  "set_column df c vals =
     (if c \<in> set (columns df)
      then df\<lparr>rows := map (\<lambda>(r, v). map (\<lambda>(c', x). if c' = c then v else x) (zip (columns df) r))
                          (zip (rows df) vals)\<rparr>
      else df\<lparr>columns := columns df @ [c],
              rows := map (\<lambda>(r, v). r @ [v]) (zip (rows df) vals)\<rparr>)"

text \<open>
  \<^verbatim>\<open>pd.concat(frames)\<close>: ValueError on an empty list; otherwise the rows of the frames
  one after the other, each frame keeping its own index labels, over the union of
  the columns in the order of their first appearance, NaN where a frame lacks a
  column.
\<close>

definition pd_concat :: "'ts dataframe list \<Rightarrow> error + 'ts dataframe" where
  "pd_concat dfs =
     (if dfs = [] then Inl ValueError
      else
        (let cols = unique (concat (map columns dfs))
         in Inr \<lparr>columns = cols, index = concat (map index dfs),
                 rows = concat (map (\<lambda>df. map (\<lambda>r. map (cell_at (columns df) r) cols) (rows df)) dfs)\<rparr>))"

text \<open>\<^verbatim>\<open>df.reset_index(drop=True)\<close> and \<^verbatim>\<open>len(df)\<close>.\<close>

definition reset_index :: "'ts dataframe \<Rightarrow> 'ts dataframe" where
  "reset_index df = df\<lparr>index := [0..<length (rows df)]\<rparr>"

definition len :: "'ts dataframe \<Rightarrow> nat" where
  "len df = length (rows df)"

section \<open>The Reddit client\<close>

text \<open>
  The class constants, and the object state the fetching methods read: the headers
  (user agent and bearer token) that \<^verbatim>\<open>authorize\<close> has set.
\<close>

definition url_base :: string where
  "url_base = ''https://oauth.reddit.com''"

definition limit :: int where
  "limit = 100"

definition top_list :: "string list" where
  "top_list = [''all'', ''year'', ''month'', ''week'', ''day'', ''hour'']"

record reddit =
  headers :: "(string \<times> string) list"

text \<open>\<^verbatim>\<open>[item["data"] for item in items]\<close>\<close>

fun item_data :: "pyval list \<Rightarrow> error + pyval list" where
  "item_data [] = Inr []"
| "item_data (item # items) =
     (case getitem item ''data'' of
        Inl e \<Rightarrow> Inl e
      | Inr d \<Rightarrow> (case item_data items of Inl e \<Rightarrow> Inl e | Inr ds \<Rightarrow> Inr (d # ds)))"

definition transform_df :: "(pyval \<Rightarrow> error + 'ts) \<Rightarrow> pyval \<Rightarrow> error + 'ts dataframe" where
  "transform_df fromts r_json =
     (case getitem r_json ''data'' of Inl e \<Rightarrow> Inl e | Inr d \<Rightarrow>
     (case getitem d ''children'' of Inl e \<Rightarrow> Inl e | Inr ch \<Rightarrow>
     (case py_iter ch of Inl e \<Rightarrow> Inl e | Inr items \<Rightarrow>
     (case item_data items of Inl e \<Rightarrow> Inl e | Inr data \<Rightarrow>
     (case DataFrame data of Inl e \<Rightarrow> Inl e | Inr df \<Rightarrow>
     (case column df ''created_utc'' of Inl e \<Rightarrow> Inl e | Inr col \<Rightarrow>
     (case apply_fromtimestamp fromts col of Inl e \<Rightarrow> Inl e | Inr ts \<Rightarrow>
      Inr (set_column df ''timestamp'' (map Stamp ts)))))))))"

text \<open>
  The loop of \<^verbatim>\<open>util_get\<close>. The state is the cursor \<open>after\<close>, the frames collected
  so far, the caller's \<open>params\<close> dict (mutated in place, so it is returned) and the
  log of the requests issued so far in the run. An exception leaves the loop with
  the dict and the log as they are at that point. The loop has no bound: where it
  never ends the value is \<open>None\<close>. The progress lines are not modelled, but the two
  header reads in them are, since a missing header raises.
\<close>

partial_function (option) util_loop ::
  "'ts platform \<Rightarrow> reddit \<Rightarrow> string \<Rightarrow> pyval \<Rightarrow> 'ts dataframe list \<Rightarrow> params \<Rightarrow> request list
     \<Rightarrow> ((error + 'ts dataframe) \<times> params \<times> request list) option" where
  [code]: "util_loop P self get_url after result params log =
     (if truthy after then
        (let params' = AList.update ''after'' after params;
             req = \<lparr>req_url = get_url, req_headers = headers self, req_params = params'\<rparr>;
             log' = log @ [req];
             r = server P (length log) req
         in (case json r of Inl e \<Rightarrow> Some (Inl e, params', log') | Inr j \<Rightarrow>
            (case transform_df (fromtimestamp P) j of Inl e \<Rightarrow> Some (Inl e, params', log') | Inr df \<Rightarrow>
            (case getitem j ''data'' of Inl e \<Rightarrow> Some (Inl e, params', log') | Inr d \<Rightarrow>
            (case getitem d ''after'' of Inl e \<Rightarrow> Some (Inl e, params', log') | Inr after' \<Rightarrow>
            (case header r ''x-ratelimit-remaining'' of Inl e \<Rightarrow> Some (Inl e, params', log') | Inr _ \<Rightarrow>
            (case header r ''x-ratelimit-reset'' of Inl e \<Rightarrow> Some (Inl e, params', log') | Inr _ \<Rightarrow>
             util_loop P self get_url after' (result @ [df]) params' log')))))))
      else Some (pd_concat result, params, log))"

definition util_get ::
  "'ts platform \<Rightarrow> reddit \<Rightarrow> string \<Rightarrow> params \<Rightarrow> request list
     \<Rightarrow> ((error + 'ts dataframe) \<times> params \<times> request list) option" where
  "util_get P self url params log =
     util_loop P self (url_base @ url) (PBool True) [] params log"

text \<open>\<^verbatim>\<open>subreddit(subreddit, sort)\<close>: one listing, with \<^verbatim>\<open>after=None\<close> already in the dict.\<close>

definition subreddit ::
  "'ts platform \<Rightarrow> reddit \<Rightarrow> string \<Rightarrow> string \<Rightarrow> request list
     \<Rightarrow> ((error + 'ts dataframe) \<times> request list) option" where
  "subreddit P self sub sort' log =
     (case util_get P self (''/r/'' @ sub @ ''/'' @ sort')
             [(''limit'', PInt limit), (''show'', PStr ''all''), (''after'', PNone)] log of
        None \<Rightarrow> None
      | Some (out, params', log') \<Rightarrow> Some (out, log'))"

text \<open>\<^verbatim>\<open>top_list.index(upto)\<close>: the first position of the value, ValueError when absent.\<close>

fun list_index :: "'a list \<Rightarrow> 'a \<Rightarrow> error + nat" where
  "list_index [] x = Inl ValueError"
| "list_index (y # ys) x =
     (if y = x then Inr 0
      else (case list_index ys x of Inl e \<Rightarrow> Inl e | Inr i \<Rightarrow> Inr (Suc i)))"

text \<open>
  The \<^verbatim>\<open>for top in self.top_list[slicer:]\<close> loop of \<^verbatim>\<open>subreddit_top\<close>, over the
  windows still to visit, with the frames collected so far; \<^verbatim>\<open>break\<close> leaves it when
  a window comes back with fewer than 900 rows.
\<close>

fun top_loop ::
  "'ts platform \<Rightarrow> reddit \<Rightarrow> string \<Rightarrow> string list \<Rightarrow> 'ts dataframe list \<Rightarrow> request list
     \<Rightarrow> ((error + 'ts dataframe list) \<times> request list) option" where
  "top_loop P self url [] result log = Some (Inr result, log)"
| "top_loop P self url (top' # tops) result log =
     (case util_get P self url
             [(''t'', PStr top'), (''limit'', PInt limit), (''show'', PStr ''all'')] log of
        None \<Rightarrow> None
      | Some (Inl e, params', log') \<Rightarrow> Some (Inl e, log')
      | Some (Inr df, params', log') \<Rightarrow>
          (if len df < 900 then Some (Inr (result @ [df]), log')
           else top_loop P self url tops (result @ [df]) log'))"

definition subreddit_top ::
  "'ts platform \<Rightarrow> reddit \<Rightarrow> string \<Rightarrow> string \<Rightarrow> string \<Rightarrow> request list
     \<Rightarrow> ((error + 'ts dataframe) \<times> request list) option" where
  "subreddit_top P self sub sort' upto' log =
     (case list_index top_list upto' of
        Inl e \<Rightarrow> Some (Inl e, log)
      | Inr slicer \<Rightarrow>
          (case top_loop P self (''/r/'' @ sub @ ''/'' @ sort') (drop slicer top_list) [] log of
             None \<Rightarrow> None
           | Some (Inl e, log') \<Rightarrow> Some (Inl e, log')
           | Some (Inr result, log') \<Rightarrow>
               (case pd_concat result of
                  Inl e \<Rightarrow> Some (Inl e, log')
                | Inr df \<Rightarrow> Some (Inr (reset_index df), log'))))"



section \<open>Notions used to state the properties\<close>

text \<open>
  What one pass of the loop body in \<^verbatim>\<open>util_get\<close> makes of a response: the frame of
  the page and the next cursor, or the exception raised on the way. The steps are
  those of \<open>util_loop\<close>, in its order.
\<close>

definition read_page :: "(pyval \<Rightarrow> error + 'ts) \<Rightarrow> response \<Rightarrow> error + ('ts dataframe \<times> pyval)" where
  "read_page fromts r =
     (case json r of Inl e \<Rightarrow> Inl e | Inr j \<Rightarrow>
     (case transform_df fromts j of Inl e \<Rightarrow> Inl e | Inr df \<Rightarrow>
     (case getitem j ''data'' of Inl e \<Rightarrow> Inl e | Inr d \<Rightarrow>
     (case getitem d ''after'' of Inl e \<Rightarrow> Inl e | Inr after' \<Rightarrow>
     (case header r ''x-ratelimit-remaining'' of Inl e \<Rightarrow> Inl e | Inr _ \<Rightarrow>
     (case header r ''x-ratelimit-reset'' of Inl e \<Rightarrow> Inl e | Inr _ \<Rightarrow>
      Inr (df, after')))))))"

text \<open>The request the loop issues for a cursor.\<close>

definition page_request :: "reddit \<Rightarrow> string \<Rightarrow> params \<Rightarrow> pyval \<Rightarrow> request" where
  "page_request self get_url params after =
     \<lparr>req_url = get_url, req_headers = headers self,
      req_params = AList.update ''after'' after params\<rparr>"

text \<open>
  The query string \<^verbatim>\<open>requests\<close> sends for a params dict: the entries whose value is
  \<^verbatim>\<open>None\<close> are dropped, every other entry is sent.
\<close>

definition outgoing_query :: "params \<Rightarrow> params" where
  "outgoing_query ps = filter (\<lambda>kv. snd kv \<noteq> PNone) ps"


definition cursor_of :: "request \<Rightarrow> pyval option" where
  "cursor_of r = map_of (req_params r) ''after''"




subsection \<open>A scripted server for the examples\<close>

text \<open>
  The examples run against a server that plays a fixed list of responses, one per
  request, whatever the request says, and answers 404 with an empty body once the
  list is used up; on a machine whose local time is UTC, an instant being written as
  its seconds since the epoch.
\<close>

definition utc_fromtimestamp :: "pyval \<Rightarrow> error + int" where
  "utc_fromtimestamp v = (case v of PInt n \<Rightarrow> Inr n | _ \<Rightarrow> Inl TypeError)"

definition post :: "string \<Rightarrow> int \<Rightarrow> pyval" where
  "post name created = PDict [(''name'', PStr name), (''created_utc'', PInt created)]"


definition listing :: "pyval list \<Rightarrow> pyval \<Rightarrow> pyval" where
  "listing payloads cursor =
     PDict [(''kind'', PStr ''Listing''),
            (''data'', PDict [(''after'', cursor),
                              (''children'', PList (map (\<lambda>p. PDict [(''kind'', PStr ''t3''), (''data'', p)]) payloads))])]"

definition listing_response :: "nat \<Rightarrow> pyval list \<Rightarrow> pyval \<Rightarrow> response" where
  "listing_response code payloads cursor =
     \<lparr>status_code = code, json_body = Some (listing payloads cursor),
      resp_headers = [(''x-ratelimit-remaining'', ''98''), (''x-ratelimit-reset'', ''120'')]\<rparr>"

definition scripted :: "response list \<Rightarrow> int platform" where
  "scripted rs =
     \<lparr>fromtimestamp = utc_fromtimestamp,
      server = (\<lambda>n req. if n < length rs then rs ! n
                         else \<lparr>status_code = 404, json_body = None, resp_headers = []\<rparr>)\<rparr>"

text \<open>The frame of a page that holds the one post \<open>post name created\<close>.\<close>

definition post_frame :: "string \<Rightarrow> int \<Rightarrow> int dataframe" where
  "post_frame name created =
     \<lparr>columns = [''name'', ''created_utc'', ''timestamp''], index = [0],
      rows = [[Cell (PStr name), Cell (PInt created), Stamp created]]\<rparr>"

definition client :: reddit where
  "client = \<lparr>headers = [(''User-Agent'', ''Python script:Trends v0.2 by u/molivo10''),
                        (''Authorization'', ''bearer token'')]\<rparr>"

section \<open>The loop of util_get\<close>

lemma util_loop_stop:
  "\<not> truthy after \<Longrightarrow>
   util_loop P self get_url after result params log = Some (pd_concat result, params, log)"
  by (subst util_loop.simps) simp

lemma util_loop_step:
  assumes "truthy after"
  shows "util_loop P self get_url after result params log =
     (case read_page (fromtimestamp P)
             (server P (length log) (page_request self get_url params after)) of
        Inl e \<Rightarrow>
          Some (Inl e, AList.update ''after'' after params,
                log @ [page_request self get_url params after])
      | Inr (df, after') \<Rightarrow>
          util_loop P self get_url after' (result @ [df]) (AList.update ''after'' after params)
            (log @ [page_request self get_url params after]))"
  using assms
  by (subst util_loop.simps)
     (simp add: read_page_def page_request_def Let_def split: sum.splits)

lemma page_request_update [simp]:
  "page_request self u (AList.update ''after'' c params) c' = page_request self u params c'"
  by (simp add: page_request_def)

lemma util_loop_induct [consumes 1, case_names stop raise continue]:
  assumes run: "util_loop P self u after result params log = Some y"
    and stop: "\<And>after result params log.
        \<not> truthy after \<Longrightarrow> Q after result params log (pd_concat result, params, log)"
    and err: "\<And>after result params log e.
        truthy after \<Longrightarrow>
        read_page (fromtimestamp P) (server P (length log) (page_request self u params after)) = Inl e \<Longrightarrow>
        Q after result params log
          (Inl e, AList.update ''after'' after params, log @ [page_request self u params after])"
    and step: "\<And>after result params log df a y.
        truthy after \<Longrightarrow>
        read_page (fromtimestamp P) (server P (length log) (page_request self u params after)) = Inr (df, a) \<Longrightarrow>
        util_loop P self u a (result @ [df]) (AList.update ''after'' after params)
          (log @ [page_request self u params after]) = Some y \<Longrightarrow>
        Q a (result @ [df]) (AList.update ''after'' after params)
          (log @ [page_request self u params after]) y \<Longrightarrow>
        Q after result params log y"
  shows "Q after result params log y"
proof -
  have "(\<lambda>((((((P', self'), u'), after), result), params), log) y.
           P' = P \<and> self' = self \<and> u' = u \<longrightarrow>
           util_loop P self u after result params log = Some y \<and> Q after result params log y)
          ((((((P, self), u), after), result), params), log) y"
  proof (rule util_loop.raw_induct[OF _ run], simp only: prod.case, intro impI, elim conjE)
    fix f :: "'a platform \<Rightarrow> reddit \<Rightarrow> string \<Rightarrow> pyval \<Rightarrow> 'a dataframe list \<Rightarrow> params \<Rightarrow> request list
     \<Rightarrow> ((error + 'a dataframe) \<times> params \<times> request list) option"
    fix P' self' u' after result params log y
    assume IH: "\<And>P' self' u' after result params log y.
       f P' self' u' after result params log = Some y \<Longrightarrow>
       P' = P \<and> self' = self \<and> u' = u \<longrightarrow>
       util_loop P self u after result params log = Some y \<and> Q after result params log y"
    assume eqs: "P' = P" "self' = self" "u' = u"
    assume body: "(if truthy after then
        (let params' = AList.update ''after'' after params;
             req = \<lparr>req_url = u', req_headers = headers self', req_params = params'\<rparr>;
             log' = log @ [req];
             r = server P' (length log) req
         in (case json r of Inl e \<Rightarrow> Some (Inl e, params', log') | Inr j \<Rightarrow>
            (case transform_df (fromtimestamp P') j of Inl e \<Rightarrow> Some (Inl e, params', log') | Inr df \<Rightarrow>
            (case getitem j ''data'' of Inl e \<Rightarrow> Some (Inl e, params', log') | Inr d \<Rightarrow>
            (case getitem d ''after'' of Inl e \<Rightarrow> Some (Inl e, params', log') | Inr after' \<Rightarrow>
            (case header r ''x-ratelimit-remaining'' of Inl e \<Rightarrow> Some (Inl e, params', log') | Inr _ \<Rightarrow>
            (case header r ''x-ratelimit-reset'' of Inl e \<Rightarrow> Some (Inl e, params', log') | Inr _ \<Rightarrow>
             f P' self' u' after' (result @ [df]) params' log')))))))
      else Some (pd_concat result, params, log)) = Some y"
    let ?req = "page_request self u params after"
    let ?ps = "AList.update ''after'' after params"
    let ?pg = "read_page (fromtimestamp P) (server P (length log) ?req)"
    show "util_loop P self u after result params log = Some y \<and> Q after result params log y"
    proof (cases "truthy after")
      case False
      with body have "y = (pd_concat result, params, log)" by simp
      then show ?thesis using False stop by (simp add: util_loop_stop)
    next
      case True
      show ?thesis
      proof (cases ?pg)
        case (Inl e)
        with body True eqs have "y = (Inl e, ?ps, log @ [?req])"
          by (auto simp: Let_def page_request_def read_page_def split: sum.splits)
        then show ?thesis using True Inl err by (simp add: util_loop_step)
      next
        case (Inr p)
        obtain df a where p: "p = (df, a)" by (cases p)
        with body True eqs Inr have "f P self u a (result @ [df]) ?ps (log @ [?req]) = Some y"
          by (auto simp: Let_def page_request_def read_page_def split: sum.splits)
        from IH[OF this] have
          r: "util_loop P self u a (result @ [df]) ?ps (log @ [?req]) = Some y"
          and q: "Q a (result @ [df]) ?ps (log @ [?req]) y" by simp_all
        have "util_loop P self u after result params log = Some y"
          using True Inr p r by (simp add: util_loop_step)
        moreover have "Q after result params log y"
          using step[OF True _ r q] Inr p by simp
        ultimately show ?thesis by simp
      qed
    qed
  qed
  then show ?thesis by simp
qed

lemma util_loop_requests:
  assumes "util_loop P self u after result params log = Some y"
  shows "\<exists>cs. snd (snd y) = log @ map (page_request self u params) cs \<and> (\<forall>c\<in>set cs. truthy c) \<and>
           fst (snd y) = (if cs = [] then params else AList.update ''after'' (last cs) params) \<and>
           (truthy after \<longrightarrow> cs \<noteq> [] \<and> hd cs = after)"
  using assms
proof (induction rule: util_loop_induct)
  case (stop after result params log)
  then show ?case by (intro exI[of _ "[]"]) simp
next
  case (raise after result params log e)
  then show ?case by (intro exI[of _ "[after]"]) simp
next
  case (continue after result params log df a y)
  then obtain cs where cs:
    "snd (snd y) = (log @ [page_request self u params after]) @ map (page_request self u (AList.update ''after'' after params)) cs"
    "\<forall>c\<in>set cs. truthy c"
    "fst (snd y) = (if cs = [] then AList.update ''after'' after params else AList.update ''after'' (last cs) (AList.update ''after'' after params))"
    by blast
  show ?case using cs continue.hyps(1)
    by (intro exI[of _ "after # cs"]) (simp add: AList.update_last)
qed





lemma util_loop_after_preset:
  "truthy after \<Longrightarrow>
   util_loop P self u after result (AList.update ''after'' v params) log =
   util_loop P self u after result (AList.update ''after'' w params) log"
  by (simp add: util_loop_step AList.update_last cong: sum.case_cong)

lemma update_frame: "k \<noteq> k' \<Longrightarrow> map_of (AList.update k' v al) k = map_of al k"
  by (simp add: AList.update_conv')

lemma update_mem: "(k, v) \<in> set (AList.update k v al)"
  by (induction al) auto

lemma update_lookup: "map_of (AList.update k v al) k = Some v"
  by (simp add: AList.update_conv')

lemma util_loop_pages:
  assumes "pages \<noteq> []"
    and "\<forall>i < length pages. read_page (fromtimestamp P)
           (server P (length log + i)
              (page_request self u params (if i = 0 then after else snd (pages ! (i - 1))))) = Inr (pages ! i)"
    and "truthy after"
    and "\<forall>i < length pages - 1. truthy (snd (pages ! i))"
    and "\<not> truthy (snd (last pages))"
  shows "util_loop P self u after result params log =
           Some (pd_concat (result @ map fst pages),
                 AList.update ''after'' (last (after # map snd (butlast pages))) params,
                 log @ map (page_request self u params) (after # map snd (butlast pages)))"
  using assms
proof (induction pages arbitrary: after result params log)
  case Nil
  then show ?case by simp
next
  case (Cons p ps)
  obtain df a where p: "p = (df, a)" by (cases p)
  from Cons.prems(2)[rule_format, of 0] p
  have first: "read_page (fromtimestamp P) (server P (length log) (page_request self u params after)) = Inr (df, a)"
    by simp
  show ?case
  proof (cases "ps = []")
    case True
    with Cons.prems p have "\<not> truthy a" by simp
    then show ?thesis using True p first Cons.prems(3)
      by (simp add: util_loop_step util_loop_stop)
  next
    case False
    from Cons.prems(4)[rule_format, of 0] False p have ta: "truthy a" by (cases ps) auto
    let ?ps' = "AList.update ''after'' after params"
    let ?log' = "log @ [page_request self u params after]"
    have h2: "\<forall>i < length ps. read_page (fromtimestamp P)
           (server P (length ?log' + i)
              (page_request self u ?ps' (if i = 0 then a else snd (ps ! (i - 1))))) = Inr (ps ! i)"
    proof (intro allI impI)
      fix i assume "i < length ps"
      with Cons.prems(2)[rule_format, of "Suc i"] p show "read_page (fromtimestamp P)
           (server P (length ?log' + i)
              (page_request self u ?ps' (if i = 0 then a else snd (ps ! (i - 1))))) = Inr (ps ! i)"
        by (cases i) auto
    qed
    have h4: "\<forall>i < length ps - 1. truthy (snd (ps ! i))"
    proof (intro allI impI)
      fix i assume "i < length ps - 1"
      with Cons.prems(4)[rule_format, of "Suc i"] show "truthy (snd (ps ! i))" by simp
    qed
    have h5: "\<not> truthy (snd (last ps))" using Cons.prems(5) False by simp
    from Cons.IH[OF False h2 ta h4 h5, of "result @ [df]"]
    show ?thesis using first Cons.prems(3) False p
      by (simp add: util_loop_step AList.update_last)
  qed
qed

text \<open>A response whose listing has no \<^verbatim>\<open>after\<close> entry ends the loop with KeyError.\<close>

lemma util_loop_absent_cursor:
  assumes "truthy after"
    and "json (server P (length log) (page_request self u params after)) = Inr j"
    and "transform_df (fromtimestamp P) j = Inr df"
    and "getitem j ''data'' = Inr (PDict kvs)" "map_of kvs ''after'' = None"
  shows "util_loop P self u after result params log =
           Some (Inl (KeyError ''after''), AList.update ''after'' after params,
                 log @ [page_request self u params after])"
  using assms by (simp add: util_loop_step read_page_def)

text \<open>
  The loop has no bound of its own: against a server whose every page carries a
  truthy cursor, a call never returns.
\<close>

lemma util_loop_diverges:
  assumes pages: "\<And>n req. \<exists>df a. read_page (fromtimestamp P) (server P n req) = Inr (df, a) \<and> truthy a"
    and "truthy after"
  shows "util_loop P self u after result params log = None"
proof (cases "util_loop P self u after result params log")
  case None
  then show ?thesis .
next
  case (Some y)
  then have "\<not> truthy after"
  proof (induction rule: util_loop_induct)
    case (stop after result params log)
    then show ?case .
  next
    case (raise after result params log e)
    with pages[of "length log" "page_request self u params after"] show ?case by simp
  next
    case (continue after result params log df a y)
    with pages[of "length log" "page_request self u params after"] show ?case by simp
  qed
  with assms(2) show ?thesis by simp
qed

section \<open>Runs against the scripted server\<close>

lemmas example_defs =
  scripted_def listing_response_def listing_def post_def client_def utc_fromtimestamp_def
  read_page_def json_def header_def transform_df_def DataFrame_def column_def cell_at_def
  record_row_def set_column_def pd_concat_def page_request_def url_base_def limit_def
  post_frame_def

lemma read_page_post:
  "read_page utc_fromtimestamp (listing_response code [post name created] cursor) =
     Inr (post_frame name created, cursor)"
  by (simp add: example_defs)

lemma read_page_empty:
  "read_page utc_fromtimestamp (listing_response code [] cursor) = Inl (KeyError ''created_utc'')"
  by (simp add: example_defs)

lemma server_scripted [simp]:
  "server (scripted rs) n req =
     (if n < length rs then rs ! n else \<lparr>status_code = 404, json_body = None, resp_headers = []\<rparr>)"
  "fromtimestamp (scripted rs) = utc_fromtimestamp"
  by (simp_all add: scripted_def)

lemma pd_concat_post1: "pd_concat [post_frame a s] = Inr (post_frame a s)"
  by (simp add: pd_concat_def post_frame_def cell_at_def)

lemma util_loop_sends_truthy:
  assumes "util_loop P self u after result params log = Some y"
  shows "\<forall>r \<in> set (drop (length log) (snd (snd y))). \<exists>c. cursor_of r = Some c \<and> truthy c"
proof -
  from util_loop_requests[OF assms] obtain cs where
    "snd (snd y) = log @ map (page_request self u params) cs" "\<forall>c\<in>set cs. truthy c"
    by blast
  then show ?thesis
    by (auto simp: cursor_of_def page_request_def update_lookup)
qed

lemma util_loop_returns_at_falsy:
  assumes "util_loop P self u after result params log = Some y"
  shows "truthy after \<longrightarrow> (\<exists>T. fst y = Inr T) \<longrightarrow>
         (\<exists>df a. read_page (fromtimestamp P)
                    (server P (length (snd (snd y)) - 1) (last (snd (snd y)))) = Inr (df, a) \<and>
                  \<not> truthy a)"
  using assms
proof (induction rule: util_loop_induct)
  case (stop after result params log)
  then show ?case by simp
next
  case (raise after result params log e)
  then show ?case by simp
next
  case (continue after result params log df a y)
  show ?case
  proof (cases "truthy a")
    case True
    with continue.IH show ?thesis by simp
  next
    case False
    with continue.hyps(3) have "y = (pd_concat (result @ [df]), AList.update ''after'' after params,
        log @ [page_request self u params after])"
      by (simp add: util_loop_stop)
    with continue.hyps(2) False show ?thesis by auto
  qed
qed

text \<open>
  C1 (amended). The loop of \<^verbatim>\<open>util_get\<close> tests the cursor with \<^verbatim>\<open>while after:\<close>, that is
  for Python truth, not for \<^verbatim>\<open>None\<close>. For responses that the loop body reads without
  error, each carrying a cursor entry, whose cursors are truthy up to the last one
  and falsy (\<^verbatim>\<open>None\<close>, an empty string, zero, \<^verbatim>\<open>False\<close>, an empty container) at the
  last one, \<^verbatim>\<open>util_get\<close> returns the concatenation of the pages' frames after exactly
  one request per page, the first request carrying \<^verbatim>\<open>True\<close> and each later one the
  cursor of the page before. No completed call has sent a request with a falsy
  cursor, and a call that returned a table read a falsy cursor from its last
  response.
\<close>

theorem util_get_stops_at_falsy_cursor:
  assumes "pages \<noteq> []"
    and "\<forall>i < length pages. read_page (fromtimestamp P)
           (server P (length log + i)
              (page_request self (url_base @ url) params
                 (if i = 0 then PBool True else snd (pages ! (i - 1))))) = Inr (pages ! i)"
    and "\<forall>i < length pages - 1. truthy (snd (pages ! i))"
    and "\<not> truthy (snd (last pages))"
  shows "util_get P self url params log =
           Some (pd_concat (map fst pages),
                 AList.update ''after'' (last (PBool True # map snd (butlast pages))) params,
                 log @ map (page_request self (url_base @ url) params)
                         (PBool True # map snd (butlast pages))) \<and>
         (\<forall>out ps' log'. util_get P self url params log = Some (out, ps', log') \<longrightarrow>
            (\<forall>r \<in> set (drop (length log) log'). \<exists>c. cursor_of r = Some c \<and> truthy c)) \<and>
         (\<forall>T ps' log'. util_get P self url params log = Some (Inr T, ps', log') \<longrightarrow>
            (\<exists>df a. read_page (fromtimestamp P) (server P (length log' - 1) (last log')) = Inr (df, a) \<and>
                     \<not> truthy a))"
proof (intro conjI allI impI)
  show "util_get P self url params log =
           Some (pd_concat (map fst pages),
                 AList.update ''after'' (last (PBool True # map snd (butlast pages))) params,
                 log @ map (page_request self (url_base @ url) params)
                         (PBool True # map snd (butlast pages)))"
    unfolding util_get_def
    using util_loop_pages[OF assms(1) assms(2) _ assms(3) assms(4), of "[]"] by simp
next
  fix out ps' log'
  assume "util_get P self url params log = Some (out, ps', log')"
  then show "\<forall>r \<in> set (drop (length log) log'). \<exists>c. cursor_of r = Some c \<and> truthy c"
    unfolding util_get_def using util_loop_sends_truthy by fastforce
next
  fix T ps' log'
  assume "util_get P self url params log = Some (Inr T, ps', log')"
  then show "\<exists>df a. read_page (fromtimestamp P) (server P (length log' - 1) (last log')) = Inr (df, a) \<and>
                     \<not> truthy a"
    unfolding util_get_def using util_loop_returns_at_falsy by fastforce
qed

theorem util_get_stops_at_falsy_cursor_witness:
  "[(post_frame ''t3_a'' 1700000000, PStr ''c1''), (post_frame ''t3_b'' 1700000060, PNone)] \<noteq> [] \<and>
   truthy (PStr ''c1'') \<and> \<not> truthy PNone \<and>
   util_get (scripted [listing_response 200 [post ''t3_a'' 1700000000] (PStr ''c1''),
                       listing_response 200 [post ''t3_b'' 1700000060] PNone])
       client ''/r/test/new'' [(''limit'', PInt 100)] [] =
     Some (pd_concat [post_frame ''t3_a'' 1700000000, post_frame ''t3_b'' 1700000060],
           [(''limit'', PInt 100), (''after'', PStr ''c1'')],
           [page_request client (url_base @ ''/r/test/new'') [(''limit'', PInt 100)] (PBool True),
            page_request client (url_base @ ''/r/test/new'') [(''limit'', PInt 100)] (PStr ''c1'')])"
  using util_get_stops_at_falsy_cursor
    [of "[(post_frame ''t3_a'' 1700000000, PStr ''c1''), (post_frame ''t3_b'' 1700000060, PNone)]"
        "scripted [listing_response 200 [post ''t3_a'' 1700000000] (PStr ''c1''),
                   listing_response 200 [post ''t3_b'' 1700000060] PNone]"
        "[]" client "''/r/test/new''" "[(''limit'', PInt 100)]"]
  by (simp add: All_less_Suc read_page_post)

text \<open>
  The claim as the spec words it fails on both of its cases. A page without the
  \<^verbatim>\<open>after\<close> entry does not end the listing with a table: reading the entry raises
  KeyError. And a cursor that is not null but falsy is not followed: the first page
  of the second run carries the empty string, and the call returns after one request
  instead of going on to the second page.
\<close>

theorem util_get_absent_or_empty_cursor:
  "util_get (scripted [\<lparr>status_code = 200,
        json_body = Some (PDict [(''data'', PDict [(''children'',
                      PList [PDict [(''data'', post ''t3_a'' 1700000000)]])])]),
        resp_headers = [(''x-ratelimit-remaining'', ''98''), (''x-ratelimit-reset'', ''120'')]\<rparr>])
       client ''/r/test/new'' [(''limit'', PInt 100)] [] =
     Some (Inl (KeyError ''after''),
           [(''limit'', PInt 100), (''after'', PBool True)],
           [page_request client (url_base @ ''/r/test/new'') [(''limit'', PInt 100)] (PBool True)]) \<and>
   PStr '''' \<noteq> PNone \<and>
   read_page utc_fromtimestamp (listing_response 200 [post ''t3_a'' 1700000000] (PStr '''')) =
     Inr (post_frame ''t3_a'' 1700000000, PStr '''') \<and>
   util_get (scripted [listing_response 200 [post ''t3_a'' 1700000000] (PStr ''''),
                       listing_response 200 [post ''t3_b'' 1700000060] PNone])
       client ''/r/test/new'' [(''limit'', PInt 100)] [] =
     Some (Inr (post_frame ''t3_a'' 1700000000),
           [(''limit'', PInt 100), (''after'', PBool True)],
           [page_request client (url_base @ ''/r/test/new'') [(''limit'', PInt 100)] (PBool True)])"
proof -
  have "util_get (scripted [\<lparr>status_code = 200,
        json_body = Some (PDict [(''data'', PDict [(''children'',
                      PList [PDict [(''data'', post ''t3_a'' 1700000000)]])])]),
        resp_headers = [(''x-ratelimit-remaining'', ''98''), (''x-ratelimit-reset'', ''120'')]\<rparr>])
       client ''/r/test/new'' [(''limit'', PInt 100)] [] =
     Some (Inl (KeyError ''after''),
           [(''limit'', PInt 100), (''after'', PBool True)],
           [page_request client (url_base @ ''/r/test/new'') [(''limit'', PInt 100)] (PBool True)])"
    by (simp add: util_get_def util_loop_step util_loop_stop example_defs)
  then show ?thesis
    by (simp add: util_get_def util_loop_step util_loop_stop read_page_post pd_concat_post1)
qed

section \<open>Errors and the HTTP status\<close>






text \<open>
  What a refusal of the server comes to: the body of an error response is JSON
  without the listing, and the call fails on the first key it looks for.
\<close>

lemma util_get_error_body:
  "util_get (scripted [\<lparr>status_code = 403,
        json_body = Some (PDict [(''message'', PStr ''Forbidden''), (''error'', PInt 403)]),
        resp_headers = [(''x-ratelimit-remaining'', ''98''), (''x-ratelimit-reset'', ''120'')]\<rparr>])
       client ''/r/test/new'' [(''limit'', PInt 100)] [] =
     Some (Inl (KeyError ''data''),
           [(''limit'', PInt 100), (''after'', PBool True)],
           [page_request client (url_base @ ''/r/test/new'') [(''limit'', PInt 100)] (PBool True)])"
  by (simp add: util_get_def util_loop_step read_page_def json_def transform_df_def)

section \<open>The first request and the caller's dict\<close>

lemma util_get_unfold:
  "util_get P self url params log =
     (case read_page (fromtimestamp P)
             (server P (length log) (page_request self (url_base @ url) params (PBool True))) of
        Inl e \<Rightarrow>
          Some (Inl e, AList.update ''after'' (PBool True) params,
                log @ [page_request self (url_base @ url) params (PBool True)])
      | Inr (df, a) \<Rightarrow>
          util_loop P self (url_base @ url) a [df] (AList.update ''after'' (PBool True) params)
            (log @ [page_request self (url_base @ url) params (PBool True)]))"
  by (simp add: util_get_def util_loop_step split: sum.splits)

lemma util_get_requests:
  assumes "util_get P self url params log = Some (out, ps', log')"
  shows "\<exists>cs. log' = log @ map (page_request self (url_base @ url) params) (PBool True # cs) \<and>
              (\<forall>c\<in>set cs. truthy c) \<and>
              ps' = AList.update ''after'' (last (PBool True # cs)) params"
proof -
  from util_loop_requests[OF assms[unfolded util_get_def]] obtain cs where
    cs: "log' = log @ map (page_request self (url_base @ url) params) cs"
        "\<forall>c\<in>set cs. truthy c"
        "ps' = (if cs = [] then params else AList.update ''after'' (last cs) params)"
        "cs \<noteq> []" "hd cs = PBool True"
    by auto
  then obtain cs' where "cs = PBool True # cs'" by (cases cs) auto
  with cs show ?thesis by (intro exI[of _ cs']) auto
qed

text \<open>
  C9. Every call of \<^verbatim>\<open>util_get\<close> begins by sending one request, whatever the listing
  holds: the call is what the loop makes of the answer to that request, and the log
  of every completed call starts with it. The request carries \<^verbatim>\<open>after\<close> set to
  \<^verbatim>\<open>True\<close>, and since \<^verbatim>\<open>requests\<close> drops only the entries that are \<^verbatim>\<open>None\<close>, the entry is
  part of the query that goes out.
\<close>

theorem util_get_first_request:
  "util_get P self url params log =
     (case read_page (fromtimestamp P)
             (server P (length log) (page_request self (url_base @ url) params (PBool True))) of
        Inl e \<Rightarrow>
          Some (Inl e, AList.update ''after'' (PBool True) params,
                log @ [page_request self (url_base @ url) params (PBool True)])
      | Inr (df, a) \<Rightarrow>
          util_loop P self (url_base @ url) a [df] (AList.update ''after'' (PBool True) params)
            (log @ [page_request self (url_base @ url) params (PBool True)])) \<and>
   (\<forall>out ps' log'. util_get P self url params log = Some (out, ps', log') \<longrightarrow>
      (\<exists>rest. log' = log @ page_request self (url_base @ url) params (PBool True) # rest)) \<and>
   cursor_of (page_request self (url_base @ url) params (PBool True)) = Some (PBool True) \<and>
   (''after'', PBool True) \<in>
     set (outgoing_query (req_params (page_request self (url_base @ url) params (PBool True))))"
proof (intro conjI allI impI)
  show "util_get P self url params log =
     (case read_page (fromtimestamp P)
             (server P (length log) (page_request self (url_base @ url) params (PBool True))) of
        Inl e \<Rightarrow>
          Some (Inl e, AList.update ''after'' (PBool True) params,
                log @ [page_request self (url_base @ url) params (PBool True)])
      | Inr (df, a) \<Rightarrow>
          util_loop P self (url_base @ url) a [df] (AList.update ''after'' (PBool True) params)
            (log @ [page_request self (url_base @ url) params (PBool True)]))"
    by (rule util_get_unfold)
next
  fix out ps' log'
  assume "util_get P self url params log = Some (out, ps', log')"
  from util_get_requests[OF this]
  show "\<exists>rest. log' = log @ page_request self (url_base @ url) params (PBool True) # rest"
    by auto
next
  show "cursor_of (page_request self (url_base @ url) params (PBool True)) = Some (PBool True)"
    by (simp add: cursor_of_def page_request_def update_lookup)
next
  show "(''after'', PBool True) \<in>
     set (outgoing_query (req_params (page_request self (url_base @ url) params (PBool True))))"
    by (simp add: outgoing_query_def page_request_def update_mem)
qed

theorem util_get_first_request_witness:
  "util_get (scripted [listing_response 200 [] PNone]) client ''/r/test/rising''
       [(''limit'', PInt 100), (''show'', PStr ''all''), (''after'', PNone)] [] =
     Some (Inl (KeyError ''created_utc''),
           [(''limit'', PInt 100), (''show'', PStr ''all''), (''after'', PBool True)],
           [page_request client (url_base @ ''/r/test/rising'')
              [(''limit'', PInt 100), (''show'', PStr ''all''), (''after'', PNone)] (PBool True)]) \<and>
   (''after'', PBool True) \<in>
     set (outgoing_query (req_params (page_request client (url_base @ ''/r/test/rising'')
              [(''limit'', PInt 100), (''show'', PStr ''all''), (''after'', PNone)] (PBool True))))"
  using util_get_first_request
    [of "scripted [listing_response 200 [] PNone]" client "''/r/test/rising''"
        "[(''limit'', PInt 100), (''show'', PStr ''all''), (''after'', PNone)]" "[]"]
  by (simp add: read_page_empty)

text \<open>
  C10. \<^verbatim>\<open>util_get\<close> writes the cursor into the caller's dict before each request, so a
  value the caller had put under \<^verbatim>\<open>after\<close> is never sent: two calls whose dicts
  differ only in that value issue the same requests and have the same outcome. When
  a call is over the dict is the caller's dict with the last cursor sent under
  \<^verbatim>\<open>after\<close>; every other key holds what it held, and every request was sent with the
  caller's entries and a cursor.
\<close>

theorem util_get_overwrites_after:
  "util_get P self url (AList.update ''after'' v params) log =
     util_get P self url (AList.update ''after'' w params) log \<and>
   (\<forall>out ps' log'. util_get P self url params log = Some (out, ps', log') \<longrightarrow>
      (\<exists>c. truthy c \<and> ps' = AList.update ''after'' c params) \<and>
      (\<forall>k. k \<noteq> ''after'' \<longrightarrow> map_of ps' k = map_of params k) \<and>
      (\<forall>r \<in> set (drop (length log) log').
         \<exists>c. truthy c \<and> req_params r = AList.update ''after'' c params))"
proof (intro conjI allI impI)
  show "util_get P self url (AList.update ''after'' v params) log =
     util_get P self url (AList.update ''after'' w params) log"
    unfolding util_get_def by (rule util_loop_after_preset) simp
next
  fix out ps' log'
  assume run: "util_get P self url params log = Some (out, ps', log')"
  from util_get_requests[OF run] obtain cs where
    cs: "log' = log @ map (page_request self (url_base @ url) params) (PBool True # cs)"
        "\<forall>c\<in>set cs. truthy c"
        "ps' = AList.update ''after'' (last (PBool True # cs)) params"
    by blast
  have tl: "truthy (last (PBool True # cs))" using cs(2) by (cases cs rule: rev_cases) auto
  then show "\<exists>c. truthy c \<and> ps' = AList.update ''after'' c params" using cs(3) by blast
  have all: "\<forall>c \<in> set (PBool True # cs). truthy c" using cs(2) by simp
  show "\<forall>r \<in> set (drop (length log) log'). \<exists>c. truthy c \<and> req_params r = AList.update ''after'' c params"
  proof
    fix r assume "r \<in> set (drop (length log) log')"
    with cs(1) obtain c where "c \<in> set (PBool True # cs)" "r = page_request self (url_base @ url) params c"
      by auto
    with all have "truthy c \<and> req_params r = AList.update ''after'' c params"
      by (auto simp: page_request_def)
    then show "\<exists>c. truthy c \<and> req_params r = AList.update ''after'' c params" ..
  qed
  fix k :: string assume "k \<noteq> ''after''"
  then show "map_of ps' k = map_of params k" using cs(3) by (simp add: update_frame)
qed

theorem util_get_overwrites_after_witness:
  "util_get (scripted [listing_response 200 [post ''t3_a'' 1700000000] PNone]) client ''/r/test/new''
       [(''limit'', PInt 100), (''show'', PStr ''all''), (''after'', PNone)] [] =
     Some (Inr (post_frame ''t3_a'' 1700000000),
           [(''limit'', PInt 100), (''show'', PStr ''all''), (''after'', PBool True)],
           [page_request client (url_base @ ''/r/test/new'')
              [(''limit'', PInt 100), (''show'', PStr ''all''), (''after'', PNone)] (PBool True)]) \<and>
   (\<exists>c. truthy c \<and>
      [(''limit'', PInt 100), (''show'', PStr ''all''), (''after'', PBool True)] =
      AList.update ''after'' c [(''limit'', PInt 100), (''show'', PStr ''all''), (''after'', PNone)])"
proof -
  have run: "util_get (scripted [listing_response 200 [post ''t3_a'' 1700000000] PNone]) client ''/r/test/new''
       [(''limit'', PInt 100), (''show'', PStr ''all''), (''after'', PNone)] [] =
     Some (Inr (post_frame ''t3_a'' 1700000000),
           [(''limit'', PInt 100), (''show'', PStr ''all''), (''after'', PBool True)],
           [page_request client (url_base @ ''/r/test/new'')
              [(''limit'', PInt 100), (''show'', PStr ''all''), (''after'', PNone)] (PBool True)])"
    by (simp add: util_get_def util_loop_step util_loop_stop read_page_post pd_concat_post1)
  with util_get_overwrites_after
    [where P = "scripted [listing_response 200 [post ''t3_a'' 1700000000] PNone]" and self = client
       and url = "''/r/test/new''" and log = "[]"
       and params = "[(''limit'', PInt 100), (''show'', PStr ''all''), (''after'', PNone)]"]
  show ?thesis by blast
qed

section \<open>The table of a listing\<close>

lemma pd_concat_rows:
  assumes "dfs \<noteq> []"
  shows "\<exists>T. pd_concat dfs = Inr T \<and>
             rows T = concat (map (\<lambda>df. map (\<lambda>r. map (cell_at (columns df) r) (columns T)) (rows df)) dfs) \<and>
             len T = sum_list (map len dfs)"
  using assms
  by (simp add: pd_concat_def Let_def len_def [abs_def] length_concat comp_def)

text \<open>
  For pages that the loop body reads without error and whose cursors end the listing
  at the last page, the table has the rows of the pages' frames in the order of the
  fetches, laid out over the table's columns, so as many rows as the pages have
  together, and one request was sent per page.
\<close>

lemma util_get_row_count:
  assumes "pages \<noteq> []"
    and "\<forall>i < length pages. read_page (fromtimestamp P)
           (server P (length log + i)
              (page_request self (url_base @ url) params
                 (if i = 0 then PBool True else snd (pages ! (i - 1))))) = Inr (pages ! i)"
    and "\<forall>i < length pages - 1. truthy (snd (pages ! i))"
    and "\<not> truthy (snd (last pages))"
  shows "\<exists>T ps' log'. util_get P self url params log = Some (Inr T, ps', log') \<and>
           len T = sum_list (map (\<lambda>p. len (fst p)) pages) \<and>
           rows T = concat (map (\<lambda>p. map (\<lambda>r. map (cell_at (columns (fst p)) r) (columns T))
                                         (rows (fst p))) pages) \<and>
           length log' = length log + length pages"
proof -
  from assms(1) have ne: "map fst pages \<noteq> []" by simp
  from pd_concat_rows[OF ne] obtain T where T: "pd_concat (map fst pages) = Inr T"
    "rows T = concat (map (\<lambda>df. map (\<lambda>r. map (cell_at (columns df) r) (columns T)) (rows df)) (map fst pages))"
    "len T = sum_list (map len (map fst pages))" by blast
  have run: "util_get P self url params log =
           Some (pd_concat (map fst pages),
                 AList.update ''after'' (last (PBool True # map snd (butlast pages))) params,
                 log @ map (page_request self (url_base @ url) params)
                         (PBool True # map snd (butlast pages)))"
    unfolding util_get_def
    using util_loop_pages[OF assms(1) assms(2) _ assms(3) assms(4), of "[]"] by simp
  have "length (butlast pages) + 1 = length pages" using assms(1) by (simp add: Suc_pred)
  with run T show ?thesis by (simp add: comp_def)
qed

text \<open>
  C7. The claim fails on a page without records: for a listing with no post (one
  page, no child, a null cursor) the spec's table has no record, but \<^verbatim>\<open>transform_df\<close>
  builds a frame without columns from the empty page and \<^verbatim>\<open>df["created_utc"]\<close> raises
  KeyError, so \<^verbatim>\<open>subreddit\<close> returns no table at all.
\<close>

theorem subreddit_empty_listing_raises:
  "subreddit (scripted [listing_response 200 [] PNone]) client ''test'' ''new'' [] =
     Some (Inl (KeyError ''created_utc''),
           [page_request client (url_base @ ''/r/test/new'')
              [(''limit'', PInt limit), (''show'', PStr ''all''), (''after'', PNone)] (PBool True)])"
  by (simp add: subreddit_def util_get_def util_loop_step read_page_empty)

section \<open>The windows of subreddit_top\<close>

lemma list_index_absent: "x \<notin> set xs \<Longrightarrow> list_index xs x = Inl ValueError"
  by (induction xs) auto


text \<open>
  C8. A starting window that is not one of \<^verbatim>\<open>all, year, month, week, day, hour\<close>
  makes \<^verbatim>\<open>subreddit_top\<close> fail before any request is sent: \<^verbatim>\<open>top_list.index(upto)\<close>
  raises. The spec calls the failure InvalidWindowError; in the program it is the
  ValueError of \<^verbatim>\<open>list.index\<close>.
\<close>

theorem subreddit_top_invalid_window:
  "upto' \<notin> set top_list \<Longrightarrow>
   subreddit_top P self sub sort' upto' log = Some (Inl ValueError, log)"
  by (simp add: subreddit_top_def list_index_absent)

theorem subreddit_top_invalid_window_witness:
  "''decade'' \<notin> set top_list \<and>
   subreddit_top (scripted []) client ''test'' ''top'' ''decade'' [] = Some (Inl ValueError, [])"
proof -
  have h: "''decade'' \<notin> set top_list" by (simp add: top_list_def)
  show ?thesis using h subreddit_top_invalid_window [OF h] by simp
qed












section \<open>The frame of a page\<close>

lemma set_unique [simp]: "set (unique xs) = set xs"
proof (induction xs rule: unique.induct)
  case 1
  show ?case by simp
next
  case (2 x xs)
  then show ?case by auto
qed

lemma item_data_Inr:
  "item_data items = Inr data \<Longrightarrow> list_all2 (\<lambda>it d. getitem it ''data'' = Inr d) items data"
  by (induction items arbitrary: data) (auto split: sum.splits)

lemma item_data_success:
  "list_all2 (\<lambda>it d. getitem it ''data'' = Inr d) items data \<Longrightarrow> item_data items = Inr data"
  by (induction rule: list_all2_induct) auto

lemma those_dict_of: "those (map dict_of data) = Some ds \<Longrightarrow> data = map PDict ds"
proof (induction data arbitrary: ds)
  case Nil
  then show ?case by simp
next
  case (Cons x xs)
  then show ?case by (cases x) (auto split: option.splits)
qed

lemma those_dict_of_PDict [simp]: "those (map dict_of (map PDict ds)) = Some ds"
  by (induction ds) auto

lemma cell_at_record_row:
  "cell_at cols (record_row cols kv) c =
     (if c \<in> set cols then stored (map_of kv c) else NaN)"
  by (simp add: cell_at_def record_row_def map_of_zip_map)

lemma stored_Cell: "(stored x = Cell v) = (x = Some v \<and> v \<noteq> PNone)"
  by (cases "(x :: pyval option)" rule: stored.cases) auto

lemma stored_NaN: "(stored x = NaN) = (x = None \<or> x = Some PNone)"
  by (cases "(x :: pyval option)" rule: stored.cases) auto

lemma apply_fromtimestamp_Inr:
  "apply_fromtimestamp f col = Inr ts \<Longrightarrow> list_all2 (\<lambda>c t. \<exists>v. c = Cell v \<and> f v = Inr t) col ts"
  by (induction col arbitrary: ts) (auto split: sum.splits cell.splits)





lemma DataFrame_dicts:
  "DataFrame (map PDict ds) =
     Inr \<lparr>columns = unique (concat (map (map fst) ds)), index = [0..<length ds],
          rows = map (record_row (unique (concat (map (map fst) ds)))) ds\<rparr>"
  by (simp only: DataFrame_def those_dict_of_PDict option.case Let_def)

lemma DataFrame_Inr:
  assumes "DataFrame data = Inr df"
  shows "\<exists>ds. data = map PDict ds \<and> columns df = unique (concat (map (map fst) ds)) \<and>
              rows df = map (record_row (columns df)) ds"
proof -
  from assms obtain ds where ds: "those (map dict_of data) = Some ds"
    by (auto simp: DataFrame_def split: option.splits)
  then have "data = map PDict ds" by (rule those_dict_of)
  with assms show ?thesis by (auto simp: DataFrame_dicts)
qed

lemma column_record_rows:
  assumes "rows df = map (record_row (columns df)) ds" "column df c = Inr col"
  shows "c \<in> set (columns df) \<and>
         col = map (\<lambda>kv. stored (map_of kv c)) ds"
  using assms by (auto simp: column_def cell_at_record_row split: if_splits)

lemma transform_df_Inr:
  fixes fromts :: "pyval \<Rightarrow> error + 'ts"
  assumes "transform_df fromts r_json = Inr df"
  shows "\<exists>d ch items ds df0 ts.
           getitem r_json ''data'' = Inr d \<and> getitem d ''children'' = Inr ch \<and>
           py_iter ch = Inr items \<and>
           list_all2 (\<lambda>it kv. getitem it ''data'' = Inr (PDict kv)) items ds \<and>
           DataFrame (map PDict ds) = Inr df0 \<and> ''created_utc'' \<in> set (columns df0) \<and>
           list_all2 (\<lambda>kv t. \<exists>v. map_of kv ''created_utc'' = Some v \<and> v \<noteq> PNone \<and>
                                   fromts v = Inr t) ds ts \<and>
           df = set_column df0 ''timestamp'' (map Stamp ts)"
proof -
  from assms obtain d ch items data df0 col ts where
    s: "getitem r_json ''data'' = Inr d" "getitem d ''children'' = Inr ch"
       "py_iter ch = Inr items" "item_data items = Inr data" "DataFrame data = Inr df0"
       "column df0 ''created_utc'' = Inr col" "apply_fromtimestamp fromts col = Inr ts"
       "df = set_column df0 ''timestamp'' (map Stamp ts)"
    by (auto simp: transform_df_def split: sum.splits)
  from DataFrame_Inr[OF s(5)] obtain ds where
    ds: "data = map PDict ds" "rows df0 = map (record_row (columns df0)) ds" by blast
  from item_data_Inr[OF s(4)] ds(1)
  have items: "list_all2 (\<lambda>it kv. getitem it ''data'' = Inr (PDict kv)) items ds"
    by (simp add: list_all2_map2)
  from column_record_rows[OF ds(2) s(6)] have
    col: "''created_utc'' \<in> set (columns df0)"
         "col = map (\<lambda>kv. stored (map_of kv ''created_utc'')) ds"
    by simp_all
  from apply_fromtimestamp_Inr[OF s(7)]
  have "list_all2 (\<lambda>c t. \<exists>v. c = Cell v \<and> fromts v = Inr t)
          (map (\<lambda>kv. (stored (map_of kv ''created_utc'') :: 'ts cell)) ds) ts"
    unfolding col(2) .
  then have "list_all2 (\<lambda>kv t. \<exists>v. map_of kv ''created_utc'' = Some v \<and> v \<noteq> PNone \<and>
                                   fromts v = Inr t) ds ts"
    unfolding list_all2_map1 by (rule list_all2_mono) (auto simp: stored_Cell)
  with s(1,2,3,5,8) ds(1) items col(1) show ?thesis by blast
qed


lemma apply_fromtimestamp_NaN:
  "NaN \<in> set col \<Longrightarrow> \<forall>c\<in>set col. c = NaN \<or> (\<exists>v t. c = Cell v \<and> f v = Inr t) \<Longrightarrow>
   apply_fromtimestamp f col = Inl ValueError"
proof (induction col)
  case Nil
  then show ?case by simp
next
  case (Cons c col)
  show ?case
  proof (cases "c = NaN")
    case True
    then show ?thesis by simp
  next
    case False
    with Cons.prems obtain v t where c: "c = Cell v" "f v = Inr t" by auto
    from False Cons.prems have "NaN \<in> set col" "\<forall>c\<in>set col. c = NaN \<or> (\<exists>v t. c = Cell v \<and> f v = Inr t)"
      by auto
    from Cons.IH[OF this] c show ?thesis by simp
  qed
qed

lemma transform_df_gaps:
  fixes fromts :: "pyval \<Rightarrow> error + 'ts"
  assumes "getitem r_json ''data'' = Inr d" "getitem d ''children'' = Inr ch"
    and "py_iter ch = Inr items"
    and "list_all2 (\<lambda>it kv. getitem it ''data'' = Inr (PDict kv)) items ds"
    and "\<forall>kv\<in>set ds. \<forall>v. map_of kv ''created_utc'' = Some v \<longrightarrow> (\<exists>t. fromts v = Inr t)"
    and "kv \<in> set ds" "map_of kv ''created_utc'' = None"
  shows "transform_df fromts r_json =
           (if \<forall>kv\<in>set ds. map_of kv ''created_utc'' = None then Inl (KeyError ''created_utc'')
            else Inl ValueError)"
proof -
  let ?cols = "unique (concat (map (map fst) ds))"
  let ?df0 = "\<lparr>columns = ?cols, index = [0..<length ds], rows = map (record_row ?cols) ds\<rparr> :: 'ts dataframe"
  have "list_all2 (\<lambda>it d. getitem it ''data'' = Inr d) items (map PDict ds)"
    using assms(4) by (simp add: list_all2_map2)
  then have data: "item_data items = Inr (map PDict ds)" by (rule item_data_success)
  have df0: "DataFrame (map PDict ds) = Inr ?df0" by (rule DataFrame_dicts)
  have mem: "''created_utc'' \<in> set ?cols \<longleftrightarrow> (\<exists>kv\<in>set ds. map_of kv ''created_utc'' \<noteq> None)"
    by (auto simp: map_of_eq_None_iff)
  show ?thesis
  proof (cases "\<forall>kv\<in>set ds. map_of kv ''created_utc'' = None")
    case True
    with mem have "column ?df0 ''created_utc'' = Inl (KeyError ''created_utc'')"
      by (simp add: column_def)
    with True assms(1,2,3) data df0 show ?thesis by (simp add: transform_df_def)
  next
    case False
    let ?col = "map (\<lambda>kv. (stored (map_of kv ''created_utc'') :: 'ts cell)) ds"
    from False mem have col: "column ?df0 ''created_utc'' = Inr ?col"
      by (simp add: column_def cell_at_record_row)
    have "stored (map_of kv ''created_utc'') \<in> set ?col" using assms(6) by simp
    then have "NaN \<in> set ?col" using assms(7) by simp
    moreover have "\<forall>c\<in>set ?col. c = NaN \<or> (\<exists>v t. c = Cell v \<and> fromts v = Inr t)"
    proof
      fix c assume "c \<in> set ?col"
      then obtain kv' where kv': "kv' \<in> set ds" "c = stored (map_of kv' ''created_utc'')" by auto
      show "c = NaN \<or> (\<exists>v t. c = Cell v \<and> fromts v = Inr t)"
      proof (cases "c = NaN")
        case True
        then show ?thesis by simp
      next
        case False
        with kv'(2) obtain v where v: "map_of kv' ''created_utc'' = Some v" "v \<noteq> PNone"
          by (auto simp: stored_NaN)
        then have "c = Cell v" using kv'(2) by (simp add: stored_Cell)
        moreover from assms(5) kv'(1) v(1) obtain t where "fromts v = Inr t" by blast
        ultimately show ?thesis by blast
      qed
    qed
    ultimately have "apply_fromtimestamp fromts ?col = Inl ValueError"
      by (rule apply_fromtimestamp_NaN)
    with False assms(1,2,3) data df0 col show ?thesis by (simp add: transform_df_def)
  qed
qed

text \<open>
  C5. A page in which some item does not carry \<^verbatim>\<open>created_utc\<close> is not normalized:
  \<^verbatim>\<open>transform_df\<close> raises. The spec calls the failure MalformedResponseError. In the
  program, for a page whose items all have a dict for payload and a convertible value
  where they have the field, it is the KeyError of \<^verbatim>\<open>df["created_utc"]\<close> when no item
  has the field, and the ValueError of \<^verbatim>\<open>fromtimestamp\<close> on the NaN that stands for the
  missing value when only some items lack it.
\<close>

theorem transform_df_missing_epoch:
  fixes fromts :: "pyval \<Rightarrow> error + 'ts"
  assumes "getitem r_json ''data'' = Inr d" "getitem d ''children'' = Inr ch"
    and "py_iter ch = Inr items" "x \<in> set items"
    and "\<forall>p v. getitem x ''data'' = Inr p \<longrightarrow> getitem p ''created_utc'' \<noteq> Inr v"
  shows "(\<exists>e. transform_df fromts r_json = Inl e) \<and>
         (\<forall>ds. list_all2 (\<lambda>it kv. getitem it ''data'' = Inr (PDict kv)) items ds \<and>
               (\<forall>kv\<in>set ds. \<forall>v. map_of kv ''created_utc'' = Some v \<longrightarrow> (\<exists>t. fromts v = Inr t)) \<longrightarrow>
               transform_df fromts r_json =
                 (if \<forall>kv\<in>set ds. map_of kv ''created_utc'' = None
                  then Inl (KeyError ''created_utc'') else Inl ValueError))"
proof (intro conjI allI impI)
  show "\<exists>e. transform_df fromts r_json = Inl e"
  proof (cases "transform_df fromts r_json")
    case (Inl e)
    then show ?thesis by blast
  next
    case (Inr df)
    from transform_df_Inr[OF Inr] assms(1,2,3) obtain ds ts where
      a: "list_all2 (\<lambda>it kv. getitem it ''data'' = Inr (PDict kv)) items ds"
         "list_all2 (\<lambda>kv t. \<exists>v. map_of kv ''created_utc'' = Some v \<and> v \<noteq> PNone \<and>
                                 fromts v = Inr t) ds ts"
      by auto
    from assms(4) obtain i where i: "i < length items" "items ! i = x"
      by (auto simp: in_set_conv_nth)
    with a have "getitem x ''data'' = Inr (PDict (ds ! i))"
      "\<exists>v. map_of (ds ! i) ''created_utc'' = Some v"
      by (auto simp: list_all2_conv_all_nth)
    with assms(5) show ?thesis by auto
  qed
next
  fix ds
  assume h: "list_all2 (\<lambda>it kv. getitem it ''data'' = Inr (PDict kv)) items ds \<and>
               (\<forall>kv\<in>set ds. \<forall>v. map_of kv ''created_utc'' = Some v \<longrightarrow> (\<exists>t. fromts v = Inr t))"
  from assms(4) obtain i where i: "i < length items" "items ! i = x"
    by (auto simp: in_set_conv_nth)
  with h have x: "getitem x ''data'' = Inr (PDict (ds ! i))" "i < length ds"
    by (auto simp: list_all2_conv_all_nth)
  with assms(5) have "map_of (ds ! i) ''created_utc'' = None"
    by (cases "map_of (ds ! i) ''created_utc''") auto
  moreover have "ds ! i \<in> set ds" using x(2) by simp
  ultimately show "transform_df fromts r_json =
                 (if \<forall>kv\<in>set ds. map_of kv ''created_utc'' = None
                  then Inl (KeyError ''created_utc'') else Inl ValueError)"
    using transform_df_gaps[OF assms(1,2,3)] h by blast
qed

theorem transform_df_missing_epoch_witness:
  "getitem (listing [post ''t3_a'' 1700000000, PDict [(''name'', PStr ''t3_b'')]] PNone) ''data'' =
     Inr (PDict [(''after'', PNone),
                 (''children'', PList [PDict [(''kind'', PStr ''t3''), (''data'', post ''t3_a'' 1700000000)],
                                       PDict [(''kind'', PStr ''t3''), (''data'', PDict [(''name'', PStr ''t3_b'')])]])]) \<and>
   transform_df utc_fromtimestamp
     (listing [post ''t3_a'' 1700000000, PDict [(''name'', PStr ''t3_b'')]] PNone) = Inl ValueError"
proof -
  let ?a = "PDict [(''kind'', PStr ''t3''), (''data'', post ''t3_a'' 1700000000)]"
  let ?b = "PDict [(''kind'', PStr ''t3''), (''data'', PDict [(''name'', PStr ''t3_b'')])]"
  let ?d = "PDict [(''after'', PNone), (''children'', PList [?a, ?b])]"
  let ?j = "listing [post ''t3_a'' 1700000000, PDict [(''name'', PStr ''t3_b'')]] PNone"
  have 1: "getitem ?j ''data'' = Inr ?d" by (simp add: listing_def)
  have 2: "getitem ?d ''children'' = Inr (PList [?a, ?b])" by simp
  have 3: "py_iter (PList [?a, ?b]) = Inr [?a, ?b]" by simp
  have 4: "?b \<in> set [?a, ?b]" by simp
  have 5: "\<forall>p v. getitem ?b ''data'' = Inr p \<longrightarrow> getitem p ''created_utc'' \<noteq> Inr v" by simp
  from transform_df_missing_epoch[OF 1 2 3 4 5, of utc_fromtimestamp]
  have "list_all2 (\<lambda>it kv. getitem it ''data'' = Inr (PDict kv)) [?a, ?b]
          [[(''name'', PStr ''t3_a''), (''created_utc'', PInt 1700000000)], [(''name'', PStr ''t3_b'')]] \<and>
        (\<forall>kv\<in>set [[(''name'', PStr ''t3_a''), (''created_utc'', PInt 1700000000)], [(''name'', PStr ''t3_b'')]].
           \<forall>v. map_of kv ''created_utc'' = Some v \<longrightarrow> (\<exists>t. utc_fromtimestamp v = Inr t)) \<longrightarrow>
        transform_df utc_fromtimestamp ?j =
          (if \<forall>kv\<in>set [[(''name'', PStr ''t3_a''), (''created_utc'', PInt 1700000000)], [(''name'', PStr ''t3_b'')]].
                map_of kv ''created_utc'' = None
           then Inl (KeyError ''created_utc'') else Inl ValueError)"
    by blast
  then have "transform_df utc_fromtimestamp ?j = Inl ValueError"
    by (simp add: post_def utc_fromtimestamp_def)
  with 1 show ?thesis by simp
qed







end
